theory Spec2Isabelle
  imports Main "HOL-Library.AList"
begin

text \<open>
  A model of the tree router of \<^verbatim>\<open>src/tree-router.js\<close>: the class \<^verbatim>\<open>Route\<close> with
  its parent reference and composed path, the registry of routes by name, and the service
  that reconstructs paths from names and arguments. The model follows the semantics of
  the JavaScript operations the source uses: truthiness, the order of enumeration of the
  properties of an object, \<^verbatim>\<open>Object.assign\<close>, and \<^verbatim>\<open>String.prototype.replace\<close> with a
  string pattern.
\<close>

section \<open>JavaScript values and objects\<close>

text \<open>
  The primitive values that occur as route names, signal names and argument values.
  Numbers (IEEE doubles), functions and nested objects are not modelled.
\<close>

datatype jsval = JUndefined | JNull | JBool bool | JStr string

text \<open>Truthiness, as tested by \<^verbatim>\<open>||\<close>, \<^verbatim>\<open>!\<close> and \<^verbatim>\<open>if\<close>.\<close>

fun truthy :: "jsval \<Rightarrow> bool" where
  "truthy JUndefined = False"
| "truthy JNull = False"
| "truthy (JBool b) = b"
| "truthy (JStr s) = (s \<noteq> [])"

text \<open>The conversion to string made by a property access, a template literal and
  \<^verbatim>\<open>String.prototype.replace\<close>.\<close>

fun ToString :: "jsval \<Rightarrow> string" where
  "ToString JUndefined = ''undefined''"
| "ToString JNull = ''null''"
| "ToString (JBool b) = (if b then ''true'' else ''false'')"
| "ToString (JStr s) = s"

text \<open>
  An object used as a dictionary is the list of its own enumerable properties in the
  order of their creation; the keys of a well-formed object are distinct. The inherited
  accessor \<^verbatim>\<open>__proto__\<close> of ordinary objects is outside the model: no property is
  assumed to have that name.
\<close>

type_synonym 'v obj = "(string \<times> 'v) list"

definition wf_obj :: "'v obj \<Rightarrow> bool" where
  "wf_obj ob = distinct (map fst ob)"

text \<open>\<^verbatim>\<open>key in ob\<close>, \<^verbatim>\<open>ob[key]\<close> and \<^verbatim>\<open>ob[key] = v\<close> (an existing property keeps
  its place, a new one is created last).\<close>

definition obj_in :: "string \<Rightarrow> 'v obj \<Rightarrow> bool" where
  "obj_in k ob = (k \<in> set (map fst ob))"

definition obj_get :: "'v obj \<Rightarrow> string \<Rightarrow> 'v option" where
  "obj_get ob k = map_of ob k"

definition obj_set :: "'v obj \<Rightarrow> string \<Rightarrow> 'v \<Rightarrow> 'v obj" where
  "obj_set ob k v = AList.update k v ob"

text \<open>
  The order in which \<^verbatim>\<open>for ... in\<close>, \<^verbatim>\<open>Object.keys\<close> and \<^verbatim>\<open>Object.assign\<close>
  visit the own properties: first the keys that are array indices (canonical decimal
  numerals below \<open>2^32 - 1\<close>) in ascending numeric order, then all other keys in the
  order of creation.
\<close>

definition is_digit :: "char \<Rightarrow> bool" where
  "is_digit c = (c \<in> set ''0123456789'')"

definition digit_val :: "char \<Rightarrow> int" where
  "digit_val c = of_char c - 48"

definition index_value :: "string \<Rightarrow> int" where
  "index_value s = foldl (\<lambda>n c. 10 * n + digit_val c) 0 s"

definition is_array_index :: "string \<Rightarrow> bool" where
  "is_array_index s =
     (s \<noteq> [] \<and> list_all is_digit s \<and> (if hd s = CHR ''0'' then s = ''0'' else True)
      \<and> index_value s < 4294967295)"

definition own_entries :: "'v obj \<Rightarrow> (string \<times> 'v) list" where
  "own_entries ob =
     sort_key (\<lambda>e. index_value (fst e)) (filter (\<lambda>e. is_array_index (fst e)) ob)
     @ filter (\<lambda>e. \<not> is_array_index (fst e)) ob"

text \<open>\<^verbatim>\<open>Object.assign(target, source)\<close>; a source that is \<^verbatim>\<open>undefined\<close> is skipped.\<close>

definition obj_assign1 :: "'v obj \<Rightarrow> 'v obj option \<Rightarrow> 'v obj" where
  "obj_assign1 target source =
     (case source of
        None \<Rightarrow> target
      | Some src \<Rightarrow> foldl (\<lambda>acc e. obj_set acc (fst e) (snd e)) target (own_entries src))"

text \<open>\<^verbatim>\<open>Object.assign(target, ...sources)\<close>: the sources are copied from left to right.\<close>

definition Object_assign :: "'v obj \<Rightarrow> 'v obj option list \<Rightarrow> 'v obj" where
  "Object_assign target sources = foldl obj_assign1 target sources"

section \<open>String operations\<close>

definition startsWith_slash :: "string \<Rightarrow> bool" where
  "startsWith_slash s = (s \<noteq> [] \<and> hd s = CHR ''/'')"

definition endsWith_slash :: "string \<Rightarrow> bool" where
  "endsWith_slash s = (s \<noteq> [] \<and> last s = CHR ''/'')"

text \<open>The first occurrence of a pattern: the text before it and the text after it.\<close>

fun split_first :: "string \<Rightarrow> string \<Rightarrow> (string \<times> string) option" where
  "split_first pat [] = (if pat = [] then Some ([], []) else None)"
| "split_first pat (c # cs) =
     (if take (length pat) (c # cs) = pat then Some ([], drop (length pat) (c # cs))
      else (case split_first pat cs of
              None \<Rightarrow> None
            | Some (b, a) \<Rightarrow> Some (c # b, a)))"

text \<open>
  The replacement text of \<^verbatim>\<open>String.prototype.replace\<close> with a string pattern: in
  the replacement, \<^verbatim>\<open>$$\<close> stands for a dollar sign, \<^verbatim>\<open>$&\<close> for the matched text,
  \<^verbatim>\<open>$`\<close> for the text before the match and \<^verbatim>\<open>$'\<close> for the text after it; a string
  pattern has no capture groups, so every other character stands for itself.
\<close>

fun GetSubstitution :: "string \<Rightarrow> string \<Rightarrow> string \<Rightarrow> string \<Rightarrow> string" where
  "GetSubstitution matched pre post [] = []"
| "GetSubstitution matched pre post [c] = [c]"
| "GetSubstitution matched pre post (c # d # rest) =
     (if c = CHR ''$'' \<and> d = CHR ''$'' then CHR ''$'' # GetSubstitution matched pre post rest
      else if c = CHR ''$'' \<and> d = CHR ''&'' then matched @ GetSubstitution matched pre post rest
      else if c = CHR ''$'' \<and> d = CHR 0x60 then pre @ GetSubstitution matched pre post rest
      else if c = CHR ''$'' \<and> d = CHR 0x27 then post @ GetSubstitution matched pre post rest
      else c # GetSubstitution matched pre post (d # rest))"

text \<open>\<^verbatim>\<open>s.replace(pat, rep)\<close> with a string pattern: only the first occurrence is replaced.\<close>

definition js_replace :: "string \<Rightarrow> string \<Rightarrow> string \<Rightarrow> string" where
  "js_replace s pat rep =
     (case split_first pat s of
        None \<Rightarrow> s
      | Some (b, a) \<Rightarrow> b @ GetSubstitution pat b a rep @ a)"

section \<open>Routes\<close>

text \<open>
  A handler is the object \<^verbatim>\<open>{ signal, args }\<close>; its \<^verbatim>\<open>args\<close> may be missing.
  A route object has the fields \<^verbatim>\<open>_url\<close>, \<^verbatim>\<open>_name\<close>, \<^verbatim>\<open>_handler\<close> and
  \<^verbatim>\<open>_parent\<close>; the parent is a reference to another route object, or \<^verbatim>\<open>null\<close>.
  Route objects are mutable and shared (the registry and the children of a route refer
  to the same object), so they live in a store indexed by references.
\<close>

type_synonym ref = nat

record Handler =
  h_signal :: jsval
  h_args :: "jsval obj option"

record Route =
  r_url :: string
  r_name :: jsval
  r_handler :: Handler
  r_parent :: "ref option"

type_synonym heap = "ref \<Rightarrow> Route"

text \<open>The constructor.\<close>

definition Route_new :: "string \<Rightarrow> jsval \<Rightarrow> Handler \<Rightarrow> Route" where
  "Route_new url name handler =
     \<lparr> r_url = (if startsWith_slash url then url else CHR ''/'' # url),
       r_name = name,
       r_handler = handler,
       r_parent = None \<rparr>"

text \<open>The accessors \<^verbatim>\<open>name\<close> and \<^verbatim>\<open>parent\<close>.\<close>

definition Route_name :: "Route \<Rightarrow> jsval" where
  "Route_name r = (if truthy (r_name r) then r_name r else JStr (r_url r))"

definition Route_parent :: "heap \<Rightarrow> ref \<Rightarrow> ref option" where
  "Route_parent h r = r_parent (h r)"

definition Route_set_parent :: "heap \<Rightarrow> ref \<Rightarrow> ref option \<Rightarrow> heap" where
  "Route_set_parent h r p =
     (if r_parent (h r) \<noteq> None then h
      else h(r := (h r)\<lparr>r_parent := p\<rparr>))"

text \<open>
  \<^verbatim>\<open>path()\<close> calls itself on the parent. On a cyclic parent chain the recursion never
  returns a string (the engine aborts it); that is the value \<open>None\<close>.
\<close>

partial_function (option) Route_path :: "heap \<Rightarrow> ref \<Rightarrow> string option" where
  "Route_path h r =
     (case Route_parent h r of
        None \<Rightarrow> Some (r_url (h r))
      | Some p \<Rightarrow>
          Option.bind (Route_path h p)
            (\<lambda>parentPath.
               Some ((if endsWith_slash parentPath then butlast parentPath else parentPath)
                     @ r_url (h r))))"

declare Route_path.simps [code]

section \<open>The imported modules\<close>

text \<open>
  The route compiler \<^verbatim>\<open>routeHelper.compileRoute\<close> and the class \<^verbatim>\<open>URI\<close> are
  imported from other packages. The route operations take them as a parameter: the
  constructor of URI values, and the compiler, whose result has a regular expression
  \<^verbatim>\<open>expression\<close> (used through \<^verbatim>\<open>test\<close> only) and a function \<^verbatim>\<open>map\<close> from a
  URI to the object of the extracted arguments.
\<close>

record 'u compiled =
  expression_test :: "string \<Rightarrow> bool"
  map_args :: "'u \<Rightarrow> jsval obj"

record 'u deps =
  URI :: "string \<Rightarrow> 'u"
  compileRoute :: "'u \<Rightarrow> 'u compiled"

section \<open>Matching and handling\<close>

definition Route_compiledPath :: "'u deps \<Rightarrow> heap \<Rightarrow> ref \<Rightarrow> 'u compiled option" where
  "Route_compiledPath D h r =
     (case Route_path h r of
        None \<Rightarrow> None
      | Some p \<Rightarrow> Some (compileRoute D (URI D p)))"

definition Route_matches :: "'u deps \<Rightarrow> heap \<Rightarrow> ref \<Rightarrow> string \<Rightarrow> bool option" where
  "Route_matches D h r path =
     (case Route_compiledPath D h r of
        None \<Rightarrow> None
      | Some compiled \<Rightarrow> Some (expression_test compiled path))"

text \<open>The static arguments of a handler, none when its \<^verbatim>\<open>args\<close> is missing.\<close>

definition static_args :: "Handler \<Rightarrow> jsval obj" where
  "static_args handler = (case h_args handler of None \<Rightarrow> [] | Some a \<Rightarrow> a)"

text \<open>The object \<^verbatim>\<open>{ signal, args }\<close> returned by \<^verbatim>\<open>handle\<close>.\<close>

record SignalArgs =
  signal :: jsval
  args :: "jsval obj"

definition Route_handle :: "'u deps \<Rightarrow> heap \<Rightarrow> ref \<Rightarrow> string \<Rightarrow> SignalArgs option" where
  "Route_handle D h r uri =
     (case Route_compiledPath D h r of
        None \<Rightarrow> None
      | Some compiled \<Rightarrow>
          (let uriArgs = map_args compiled (URI D uri);
               args = Object_assign [(''routeName'', Route_name (h r))]
                        [Some uriArgs, h_args (r_handler (h r))]
           in Some \<lparr> signal = h_signal (r_handler (h r)), args = args \<rparr>))"

definition Route_toString :: "heap \<Rightarrow> ref \<Rightarrow> string option" where
  "Route_toString h r =
     (case Route_path h r of
        None \<Rightarrow> None
      | Some p \<Rightarrow>
          Some (''Route (name='' @ ToString (Route_name (h r)) @ '', path='' @ p
                @ '', handler='' @ ToString (h_signal (r_handler (h r))) @ '')''))"

section \<open>The registry\<close>

text \<open>
  The only error of the module; it carries its message. The registry is the object
  \<^verbatim>\<open>_routes\<close>, created without a prototype, whose values are references to routes.
\<close>

datatype error = DuplicatedRouteError string

record RouteRegistry =
  routes :: "ref obj"

definition registry :: RouteRegistry where
  "registry = \<lparr> routes = [] \<rparr>"

definition DuplicatedRouteError_new :: "string \<Rightarrow> error" where
  "DuplicatedRouteError_new route =
     DuplicatedRouteError (''Route name of '' @ route
       @ '' is duplicated, every route must provide its own unique name'')"

text \<open>
  \<^verbatim>\<open>addRoute\<close> returns its outcome together with the registry as it is afterwards.
  The error message needs the string form of the route, hence its path.
\<close>

definition RouteRegistry_addRoute ::
  "heap \<Rightarrow> RouteRegistry \<Rightarrow> ref \<Rightarrow> ((error + unit) \<times> RouteRegistry) option" where
  "RouteRegistry_addRoute h reg route =
     (let key = ToString (Route_name (h route)) in
      if obj_in key (routes reg)
      then (case Route_toString h route of
              None \<Rightarrow> None
            | Some str \<Rightarrow> Some (Inl (DuplicatedRouteError_new str), reg))
      else Some (Inr (), reg\<lparr> routes := obj_set (routes reg) key route \<rparr>))"

definition RouteRegistry_byName :: "RouteRegistry \<Rightarrow> string \<Rightarrow> ref option" where
  "RouteRegistry_byName reg name = obj_get (routes reg) name"

text \<open>The loop of \<^verbatim>\<open>matchingRoute\<close> over the properties still to visit. The outer
  \<open>None\<close> is a call of \<^verbatim>\<open>matches\<close> that does not return; \<open>Some None\<close> is \<^verbatim>\<open>null\<close>.\<close>

fun matchingRoute_loop ::
  "'u deps \<Rightarrow> heap \<Rightarrow> (string \<times> ref) list \<Rightarrow> string \<Rightarrow> ref option option" where
  "matchingRoute_loop D h [] path = Some None"
| "matchingRoute_loop D h ((routeName, currentRoute) # rest) path =
     (case Route_matches D h currentRoute path of
        None \<Rightarrow> None
      | Some True \<Rightarrow> Some (Some currentRoute)
      | Some False \<Rightarrow> matchingRoute_loop D h rest path)"

definition RouteRegistry_matchingRoute ::
  "'u deps \<Rightarrow> heap \<Rightarrow> RouteRegistry \<Rightarrow> string \<Rightarrow> ref option option" where
  "RouteRegistry_matchingRoute D h reg path =
     matchingRoute_loop D h (own_entries (routes reg)) path"

section \<open>The router service\<close>

text \<open>\<^verbatim>\<open>_replaceParams\<close>: the argument object may be missing.\<close>

definition replaceParams :: "string \<Rightarrow> jsval obj option \<Rightarrow> string" where
  "replaceParams path args_opt =
     foldl (\<lambda>acc e. js_replace acc (CHR '':'' # fst e) (ToString (snd e))) path
       (own_entries (case args_opt of None \<Rightarrow> [] | Some a \<Rightarrow> a))"

definition TreeRouterService_parent ::
  "heap \<Rightarrow> RouteRegistry \<Rightarrow> string \<Rightarrow> jsval obj option \<Rightarrow> string option option" where
  "TreeRouterService_parent h reg name args_opt =
     (let current = RouteRegistry_byName reg name;
          parent = (case current of None \<Rightarrow> None | Some c \<Rightarrow> Route_parent h c)
      in case parent of
           None \<Rightarrow> Some None
         | Some p \<Rightarrow>
             (case Route_path h p of
                None \<Rightarrow> None
              | Some pp \<Rightarrow> Some (Some (replaceParams pp args_opt))))"

definition TreeRouterService_named ::
  "heap \<Rightarrow> RouteRegistry \<Rightarrow> string \<Rightarrow> jsval obj option \<Rightarrow> string option option" where
  "TreeRouterService_named h reg name args_opt =
     (case RouteRegistry_byName reg name of
        None \<Rightarrow> Some None
      | Some found \<Rightarrow>
          (case Route_path h found of
             None \<Rightarrow> None
           | Some p \<Rightarrow> Some (Some (replaceParams p args_opt))))"

section \<open>The route compiler and the URI value, from their contracts\<close>

text \<open>Modelled from the spec: the URI value of the package \<^verbatim>\<open>catberry-uri\<close>, which is
  not part of the sources: a structured value with a path component and a query-string
  component.\<close>

record uri =
  uri_path :: string
  uri_query :: "string option"

text \<open>Modelled from the spec: the constructor of the URI value from a string, which is
  not part of the sources. The string is read by the generic syntax: an optional scheme
  up to a colon, an optional authority after two slashes, the path up to a question mark
  or a hash sign, the query up to a hash sign.\<close>

definition URI_new :: "string \<Rightarrow> uri" where
  "URI_new s =
     (let pre = takeWhile (\<lambda>c. c \<notin> set '':/?#'') s;
          s1 = (if pre \<noteq> [] \<and> take 1 (drop (length pre) s) = '':''
                then drop (length pre + 1) s else s);
          s2 = (if take 2 s1 = ''//''
                then dropWhile (\<lambda>c. c \<notin> set ''/?#'') (drop 2 s1) else s1);
          rest = dropWhile (\<lambda>c. c \<notin> set ''?#'') s2
      in \<lparr> uri_path = takeWhile (\<lambda>c. c \<notin> set ''?#'') s2,
           uri_query = (if take 1 rest = ''?''
                        then Some (takeWhile (\<lambda>c. c \<noteq> CHR ''#'') (drop 1 rest))
                        else None) \<rparr>)"

text \<open>Modelled from the spec: the segments of a path, which are separated by slashes
  (part of the path pattern compiler, which is not part of the sources).\<close>

fun split_on :: "char \<Rightarrow> string \<Rightarrow> string list" where
  "split_on sep [] = [[]]"
| "split_on sep (c # cs) =
     (if c = sep then [] # split_on sep cs
      else (case split_on sep cs of
              [] \<Rightarrow> [[c]]
            | x # xs \<Rightarrow> (c # x) # xs))"

text \<open>Modelled from the spec: a segment beginning with a colon is a positional
  parameter, named by the text after the colon (part of the path pattern compiler, which
  is not part of the sources).\<close>

definition is_param :: "string \<Rightarrow> bool" where
  "is_param seg = (seg \<noteq> [] \<and> hd seg = CHR '':'')"

text \<open>Modelled from the spec: the matcher of the path pattern compiler
  (\<^verbatim>\<open>compileRoute\<close> of the package \<^verbatim>\<open>catbee\<close>, which is not part of the sources): a
  parameter segment matches any single non-empty segment, a literal segment matches
  itself, and the number of segments must be the same.\<close>

definition segment_matches :: "string \<Rightarrow> string \<Rightarrow> bool" where
  "segment_matches t c = (if is_param t then c \<noteq> [] else c = t)"

definition compile_test :: "uri \<Rightarrow> string \<Rightarrow> bool" where
  "compile_test template candidate =
     list_all2 segment_matches (split_on (CHR ''/'') (uri_path template))
       (split_on (CHR ''/'') candidate)"

text \<open>Modelled from the spec: the extractor of the path pattern compiler, which is not
  part of the sources: every positional parameter of the template is mapped to the
  segment at its place, and every query parameter \<^verbatim>\<open>key=:name\<close> of the template to the
  value of \<^verbatim>\<open>key\<close> in the query string of the URI, when there is one.\<close>

definition parse_query :: "string \<Rightarrow> (string \<times> string) list" where
  "parse_query q =
     map (\<lambda>kv. (takeWhile (\<lambda>c. c \<noteq> CHR ''='') kv,
                drop 1 (dropWhile (\<lambda>c. c \<noteq> CHR ''='') kv)))
       (split_on (CHR ''&'') q)"

definition positional_args :: "uri \<Rightarrow> uri \<Rightarrow> (string \<times> jsval) list" where
  "positional_args template u =
     concat (map (\<lambda>e. if is_param (fst e) then [(tl (fst e), JStr (snd e))] else [])
               (zip (split_on (CHR ''/'') (uri_path template))
                    (split_on (CHR ''/'') (uri_path u))))"

definition query_args :: "uri \<Rightarrow> uri \<Rightarrow> (string \<times> jsval) list" where
  "query_args template u =
     (case (uri_query template, uri_query u) of
        (Some tq, Some uq) \<Rightarrow>
          concat (map (\<lambda>e. if is_param (snd e)
                            then (case map_of (parse_query uq) (fst e) of
                                    None \<Rightarrow> []
                                  | Some v \<Rightarrow> [(tl (snd e), JStr v)])
                            else [])
                    (parse_query tq))
      | _ \<Rightarrow> [])"

definition compile_extract :: "uri \<Rightarrow> uri \<Rightarrow> jsval obj" where
  "compile_extract template u =
     foldl (\<lambda>acc e. obj_set acc (fst e) (snd e)) []
       (positional_args template u @ query_args template u)"

text \<open>Modelled from the spec: the two imported modules together, neither of which is part
  of the sources.\<close>

definition spec_deps :: "uri deps" where
  "spec_deps =
     \<lparr> URI = URI_new,
       compileRoute = (\<lambda>template.
         \<lparr> expression_test = compile_test template,
           map_args = compile_extract template \<rparr>) \<rparr>"

section \<open>Well-founded parent chains\<close>

text \<open>A route is rooted when following the parent references from it reaches a route
  without parent. The tree construction of the module only builds such routes.\<close>

inductive rooted :: "heap \<Rightarrow> ref \<Rightarrow> bool" where
  rooted_root: "Route_parent h r = None \<Longrightarrow> rooted h r"
| rooted_child: "Route_parent h r = Some p \<Longrightarrow> rooted h p \<Longrightarrow> rooted h r"

code_pred rooted .

text \<open>The routes on the parent chain of a route, the route itself included.\<close>

inductive_set chain :: "heap \<Rightarrow> ref \<Rightarrow> ref set" for h :: heap and r :: ref where
  chain_self: "r \<in> chain h r"
| chain_parent: "q \<in> chain h r \<Longrightarrow> Route_parent h q = Some p \<Longrightarrow> p \<in> chain h r"

text \<open>A sequence of parent assignments, each to some route of the store.\<close>

definition assign_parents :: "heap \<Rightarrow> (ref \<times> ref option) list \<Rightarrow> heap" where
  "assign_parents h ops = foldl (\<lambda>h' e. Route_set_parent h' (fst e) (snd e)) h ops"

section \<open>Example stores\<close>

definition handler0 :: Handler where
  "handler0 = \<lparr> h_signal = JStr ''handleRoute'', h_args = Some [(''signalArgs'', JStr ''value'')] \<rparr>"

definition heap0 :: heap where
  "heap0 = (\<lambda>_. Route_new ''/'' JNull handler0)"

text \<open>The route \<^verbatim>\<open>/thing\<close> named \<^verbatim>\<open>bar\<close> at reference 0, whose parent is the route
  \<^verbatim>\<open>/some\<close> named \<^verbatim>\<open>foo\<close> at reference 1; a third route \<^verbatim>\<open>/api\<close> at reference 2.\<close>

definition heap_family :: heap where
  "heap_family =
     Route_set_parent
       (heap0(0 := Route_new ''/thing'' (JStr ''bar'') handler0,
              1 := Route_new ''/some'' (JStr ''foo'') handler0,
              2 := Route_new ''/api'' (JStr ''api'') handler0))
       0 (Some 1)"

text \<open>Two routes with a positional parameter; the static arguments of the second have
  the keys \<^verbatim>\<open>id\<close> and \<^verbatim>\<open>routeName\<close> too.\<close>

definition handler_override :: Handler where
  "handler_override =
     \<lparr> h_signal = JStr ''showItem'',
       h_args = Some [(''id'', JStr ''fixed''), (''routeName'', JStr ''override'')] \<rparr>"

definition heap_params :: heap where
  "heap_params =
     heap0(0 := Route_new ''/some/:id'' JNull handler0,
           1 := Route_new ''/item/:id'' (JStr ''item'') handler_override)"

text \<open>A route with a parameter for a page, registered first under the name
  \<^verbatim>\<open>page\<close>, and the route \<^verbatim>\<open>/404\<close>, registered second under the name \<^verbatim>\<open>404\<close>.\<close>

definition heap_pages :: heap where
  "heap_pages =
     heap0(0 := Route_new ''/:page'' (JStr ''page'') handler0,
           1 := Route_new ''/404'' (JStr ''404'') handler0)"

definition registry_pages :: RouteRegistry where
  "registry_pages = \<lparr> routes = [(''page'', 0), (''404'', 1)] \<rparr>"

text \<open>The two routes of the first example store, registered under their names.\<close>

definition registry_family :: RouteRegistry where
  "registry_family = \<lparr> routes = [(''bar'', 0), (''foo'', 1)] \<rparr>"

text \<open>A route named \<^verbatim>\<open>pay\<close> with a parameter for an amount.\<close>

definition heap_pay :: heap where
  "heap_pay = heap0(0 := Route_new ''/pay/:amount'' (JStr ''pay'') handler0)"

definition registry_pay :: RouteRegistry where
  "registry_pay = \<lparr> routes = [(''pay'', 0)] \<rparr>"

text \<open>A route named \<^verbatim>\<open>child\<close> whose parent, named \<^verbatim>\<open>parent\<close>, has a path with a
  positional and a query parameter.\<close>

definition heap_query :: heap where
  "heap_query =
     Route_set_parent
       (heap0(0 := Route_new ''/thing'' (JStr ''child'') handler0,
              1 := Route_new ''/some/:id?foo=:bar'' (JStr ''parent'') handler0))
       0 (Some 1)"

definition registry_query :: RouteRegistry where
  "registry_query = \<lparr> routes = [(''child'', 0), (''parent'', 1)] \<rparr>"

text \<open>The first example store after changes that leave the templates and the parents of
  the routes at 0 and 1 as they are: the route at 0 is renamed, the route at 2 replaced.\<close>

definition heap_edited :: heap where
  "heap_edited =
     heap_family(0 := (heap_family 0)\<lparr> r_name := JStr ''renamed'' \<rparr>,
                 2 := Route_new ''/other'' JNull handler0)"

section \<open>Substitution as the specification words it\<close>

text \<open>
  The substitution of the reconstruction service in the words of the specification: for
  each key of the argument object, in the order of enumeration, the token made of a colon
  and the key is replaced, where it first occurs, by the value as it is.
\<close>

definition literal_replace :: "string \<Rightarrow> string \<Rightarrow> string \<Rightarrow> string" where
  "literal_replace s pat rep =
     (case split_first pat s of
        None \<Rightarrow> s
      | Some (b, a) \<Rightarrow> b @ rep @ a)"

definition substitute_tokens :: "string \<Rightarrow> jsval obj \<Rightarrow> string" where
  "substitute_tokens path_template arg_obj =
     foldl (\<lambda>acc e. literal_replace acc (CHR '':'' # fst e) (ToString (snd e))) path_template
       (own_entries arg_obj)"

section \<open>Properties of objects\<close>

lemma set_own_entries: "set (own_entries ob) = set ob"
  by (auto simp: own_entries_def)

lemma wf_own_entries: "wf_obj ob \<Longrightarrow> wf_obj (own_entries ob)"
proof -
  assume "wf_obj ob"
  then have d: "distinct ob" and i: "inj_on fst (set ob)"
    by (simp_all add: wf_obj_def distinct_map)
  from d have "distinct (own_entries ob)"
    by (auto simp: own_entries_def)
  with i show ?thesis
    by (simp add: wf_obj_def distinct_map set_own_entries)
qed

lemma map_of_own_entries: "wf_obj ob \<Longrightarrow> map_of (own_entries ob) = map_of ob"
  using map_of_inject_set [of "own_entries ob" ob] wf_own_entries [of ob]
  by (simp add: wf_obj_def set_own_entries)

lemma map_of_foldl_obj_set:
  "distinct (map fst es) \<Longrightarrow>
   map_of (foldl (\<lambda>acc e. obj_set acc (fst e) (snd e)) t es) k =
     (case map_of es k of Some v \<Rightarrow> Some v | None \<Rightarrow> map_of t k)"
proof (induction es arbitrary: t)
  case Nil
  then show ?case by simp
next
  case (Cons e es)
  then have "map_of es (fst e) = None"
    by (simp add: map_of_eq_None_iff)
  with Cons show ?case
    by (cases e) (simp add: obj_set_def update_conv' split: option.split)
qed

lemma wf_foldl_obj_set:
  "wf_obj t \<Longrightarrow> wf_obj (foldl (\<lambda>acc e. obj_set acc (fst e) (snd e)) t es)"
  by (induction es arbitrary: t) (simp_all add: wf_obj_def obj_set_def distinct_update)

lemma obj_get_assign1:
  "wf_obj src \<Longrightarrow>
   obj_get (obj_assign1 t (Some src)) k =
     (case obj_get src k of Some v \<Rightarrow> Some v | None \<Rightarrow> obj_get t k)"
  using map_of_foldl_obj_set [of "own_entries src" t k] wf_own_entries [of src]
  by (simp add: obj_assign1_def obj_get_def wf_obj_def map_of_own_entries split: option.split)

lemma wf_assign1: "wf_obj t \<Longrightarrow> wf_obj (obj_assign1 t s)"
  by (cases s) (simp_all add: obj_assign1_def wf_foldl_obj_set)

lemmas spec_deps_defs =
  spec_deps_def URI_new_def compile_extract_def positional_args_def query_args_def
  parse_query_def is_param_def obj_set_def compile_test_def segment_matches_def

section \<open>Properties of the path\<close>

lemma path_root: "Route_parent h r = None \<Longrightarrow> Route_path h r = Some (r_url (h r))"
  by (subst Route_path.simps) simp

lemma path_child:
  "Route_parent h r = Some p \<Longrightarrow>
   Route_path h r =
     Option.bind (Route_path h p)
       (\<lambda>pp. Some ((if endsWith_slash pp then butlast pp else pp) @ r_url (h r)))"
  by (subst Route_path.simps) simp

lemma heap_family_0:
  "heap_family 0 =
     \<lparr> r_url = ''/thing'', r_name = JStr ''bar'', r_handler = handler0, r_parent = Some 1 \<rparr>"
  by (simp del: One_nat_def add: heap_family_def Route_set_parent_def Route_new_def startsWith_slash_def)

lemma heap_family_1:
  "heap_family 1 =
     \<lparr> r_url = ''/some'', r_name = JStr ''foo'', r_handler = handler0, r_parent = None \<rparr>"
  by (simp del: One_nat_def add: heap_family_def Route_set_parent_def Route_new_def startsWith_slash_def)

lemma heap_family_2:
  "heap_family 2 =
     \<lparr> r_url = ''/api'', r_name = JStr ''api'', r_handler = handler0, r_parent = None \<rparr>"
  by (simp del: One_nat_def add: heap_family_def Route_set_parent_def Route_new_def startsWith_slash_def)

lemma heap_family_path_1: "Route_path heap_family 1 = Some ''/some''"
  by (simp del: One_nat_def add: path_root Route_parent_def heap_family_1)

lemma heap_family_path_0: "Route_path heap_family 0 = Some ''/some/thing''"
  by (simp del: One_nat_def add: path_child [where p = 1] Route_parent_def heap_family_0 heap_family_path_1
      endsWith_slash_def)

lemma rooted_path: "rooted h r \<Longrightarrow> \<exists>s. Route_path h r = Some s"
proof (induction rule: rooted.induct)
  case (rooted_root h r)
  then show ?case by (simp add: path_root)
next
  case (rooted_child h r p)
  then obtain pp where "Route_path h p = Some pp" by blast
  with rooted_child.hyps(1) show ?case by (simp add: path_child)
qed

lemma path_rooted:
  assumes "Route_path h r = Some s"
  shows "rooted h r"
proof (rule Route_path.raw_induct [where P = "\<lambda>h r s. rooted h r", OF _ assms], goal_cases)
  case (1 f h r s)
  show ?case
  proof (cases "Route_parent h r")
    case None
    then show ?thesis by (rule rooted_root)
  next
    case (Some p)
    with 1(2) obtain pp where "f h p = Some pp"
      by (auto simp: bind_eq_Some_conv)
    then have "rooted h p" by (rule 1(1))
    with Some show ?thesis by (rule rooted_child)
  qed
qed

text \<open>
  Claim C6. The path of a rooted route is its own template when it has no parent, and
  otherwise the path of its parent, without its last character when that is a slash,
  followed by its own template.
\<close>

theorem Route_path_composition:
  "rooted h r \<Longrightarrow>
   \<exists>s. Route_path h r = Some s \<and>
       (case Route_parent h r of
          None \<Rightarrow> s = r_url (h r)
        | Some p \<Rightarrow>
            (\<exists>pp. Route_path h p = Some pp \<and>
                  s = (if pp \<noteq> [] \<and> last pp = CHR ''/'' then butlast pp else pp) @ r_url (h r)))"
proof -
  assume "rooted h r"
  then obtain s where s: "Route_path h r = Some s" using rooted_path by blast
  show ?thesis
  proof (cases "Route_parent h r")
    case None
    with s show ?thesis by (simp add: path_root)
  next
    case (Some p)
    with s show ?thesis
      by (auto simp: path_child bind_eq_Some_conv endsWith_slash_def)
  qed
qed

theorem Route_path_composition_witness:
  "rooted heap_family 0 \<and> Route_parent heap_family 0 = Some 1
   \<and> Route_path heap_family 1 = Some ''/some''
   \<and> Route_path heap_family 0 = Some ''/some/thing''"
proof -
  have p0: "Route_parent heap_family 0 = Some 1"
    by (simp del: One_nat_def add: Route_parent_def heap_family_0)
  have p1: "Route_parent heap_family 1 = None"
    by (simp del: One_nat_def add: Route_parent_def heap_family_1)
  have r: "rooted heap_family 0"
    by (rule rooted_child [OF p0 rooted_root [OF p1]])
  from Route_path_composition [OF r] p0
  obtain s pp where s: "Route_path heap_family 0 = Some s"
    and pp: "Route_path heap_family 1 = Some pp"
    and eq: "s = (if pp \<noteq> [] \<and> last pp = CHR ''/'' then butlast pp else pp)
                 @ r_url (heap_family 0)"
    by (auto simp del: One_nat_def)
  from pp have "pp = ''/some''" by (simp del: One_nat_def add: heap_family_path_1)
  with eq have "s = ''/some/thing''" by (simp del: One_nat_def add: heap_family_0)
  with s p0 r show ?thesis by (simp del: One_nat_def add: heap_family_path_1)
qed

section \<open>The name of a route\<close>

text \<open>
  Claim C10. A route constructed with a falsy name (the empty string, \<^verbatim>\<open>null\<close>,
  \<^verbatim>\<open>undefined\<close> or \<^verbatim>\<open>false\<close>) has its local template as name, and is registered
  under that template, which is not the empty string.
\<close>

theorem falsy_name_falls_back_to_template:
  "\<not> truthy name \<Longrightarrow> h r = Route_new url name handler \<Longrightarrow>
   Route_name (h r) = JStr (r_url (h r))
   \<and> r_url (h r) = (if startsWith_slash url then url else CHR ''/'' # url)
   \<and> r_url (h r) \<noteq> []
   \<and> RouteRegistry_addRoute h registry r = Some (Inr (), \<lparr> routes = [(r_url (h r), r)] \<rparr>)"
  by (simp add: Route_name_def Route_new_def RouteRegistry_addRoute_def registry_def
      obj_in_def obj_set_def startsWith_slash_def)

theorem falsy_name_falls_back_to_template_witness:
  "\<not> truthy (JStr []) \<and>
   Route_name (Route_new ''/some'' (JStr []) handler0) = JStr ''/some'' \<and>
   RouteRegistry_addRoute (heap0(0 := Route_new ''/some'' (JStr []) handler0)) registry 0
     = Some (Inr (), \<lparr> routes = [(''/some'', 0)] \<rparr>)"
  using falsy_name_falls_back_to_template
    [of "JStr []" "heap0(0 := Route_new ''/some'' (JStr []) handler0)" 0 "''/some''" handler0]
  by (simp add: Route_new_def startsWith_slash_def)

section \<open>Assigning a parent\<close>

lemma set_parent_keeps:
  "Route_parent h r = Some q \<Longrightarrow> Route_parent (Route_set_parent h n v) r = Some q"
  by (auto simp: Route_parent_def Route_set_parent_def)

lemma assign_parents_keeps:
  "Route_parent h r = Some q \<Longrightarrow> Route_parent (assign_parents h ops) r = Some q"
  unfolding assign_parents_def
  by (induction ops arbitrary: h) (simp_all add: set_parent_keeps)

text \<open>
  Claim C8, the statement as given fails: the full path of a route can change after its
  parent has been assigned. In the example store the route at 0 has the parent at 1 and
  the path \<^verbatim>\<open>/some/thing\<close>; when the route at 1, which has no parent yet, is given the
  parent at 2, the path of the route at 0 becomes \<^verbatim>\<open>/api/some/thing\<close>.
\<close>

theorem path_after_parent_assigned_counterexample:
  "Route_parent heap_family 0 = Some 1
   \<and> Route_path heap_family 0 = Some ''/some/thing''
   \<and> Route_path (Route_set_parent heap_family 1 (Some 2)) 0 = Some ''/api/some/thing''"
proof -
  let ?h = "Route_set_parent heap_family 1 (Some 2)"
  have h0: "?h 0 = heap_family 0" and h2: "?h 2 = heap_family 2"
    and h1: "?h 1 = (heap_family 1)\<lparr>r_parent := Some 2\<rparr>"
    by (simp_all del: One_nat_def add: Route_set_parent_def heap_family_1)
  have "Route_path ?h 2 = Some ''/api''"
    by (simp del: One_nat_def add: path_root Route_parent_def h2 heap_family_2)
  then have "Route_path ?h 1 = Some ''/api/some''"
    by (simp del: One_nat_def add: path_child [where p = 2] Route_parent_def h1 heap_family_1 endsWith_slash_def)
  then have "Route_path ?h 0 = Some ''/api/some/thing''"
    by (simp del: One_nat_def add: path_child [where p = 1] Route_parent_def h0 heap_family_0 endsWith_slash_def)
  then show ?thesis
    by (simp del: One_nat_def add: heap_family_path_0 Route_parent_def heap_family_0)
qed

text \<open>
  Claim C8, amended. When the parent of a route is set, assigning its parent again
  changes nothing in the store and raises no error, so the parent and every full path
  are as before; and the parent of that route stays the same under any sequence of
  parent assignments to any routes.
\<close>

theorem parent_set_once:
  "Route_parent h r = Some q \<Longrightarrow>
   Route_set_parent h r p = h
   \<and> Route_path (Route_set_parent h r p) n = Route_path h n
   \<and> Route_parent (assign_parents h ops) r = Some q"
proof -
  assume a: "Route_parent h r = Some q"
  then have "Route_set_parent h r p = h"
    by (simp del: One_nat_def add: Route_parent_def Route_set_parent_def)
  with a show ?thesis by (simp del: One_nat_def add: assign_parents_keeps)
qed

theorem parent_set_once_witness:
  "Route_parent heap_family 0 = Some 1
   \<and> Route_set_parent heap_family 0 (Some 2) = heap_family
   \<and> Route_parent (assign_parents heap_family [(1, Some 2), (0, Some 2), (0, None)]) 0 = Some 1"
proof -
  have a: "Route_parent heap_family 0 = Some 1"
    by (simp del: One_nat_def add: Route_parent_def heap_family_0)
  from parent_set_once [OF a, of "Some 2" 0 "[(1, Some 2), (0, Some 2), (0, None)]"] a
  show ?thesis by (simp del: One_nat_def)
qed

section \<open>Handling a URI\<close>

text \<open>
  Claim C1. For a route whose path is defined, \<^verbatim>\<open>handle\<close> returns the signal of the
  handler and an argument object in which every key has the value given by the static
  arguments of the handler if they have the key, else by the arguments extracted from the
  URI against the full path if they have it, else the name of the route for the key
  \<^verbatim>\<open>routeName\<close>, and no other key.
\<close>

theorem Route_handle_merges_args:
  assumes "Route_path h r = Some fullPath"
    and "uriArgs = map_args (compileRoute D (URI D fullPath)) (URI D uri)"
    and "wf_obj uriArgs"
    and "wf_obj (static_args (r_handler (h r)))"
  shows "\<exists>res. Route_handle D h r uri = Some res
           \<and> signal res = h_signal (r_handler (h r))
           \<and> wf_obj (args res)
           \<and> obj_get (args res) k =
               (case obj_get (static_args (r_handler (h r))) k of
                  Some v \<Rightarrow> Some v
                | None \<Rightarrow>
                    (case obj_get uriArgs k of
                       Some v \<Rightarrow> Some v
                     | None \<Rightarrow> if k = ''routeName'' then Some (Route_name (h r)) else None))"
proof -
  let ?t = "[(''routeName'', Route_name (h r))]"
  let ?a1 = "obj_assign1 ?t (Some uriArgs)"
  let ?a2 = "obj_assign1 ?a1 (h_args (r_handler (h r)))"
  have res: "Route_handle D h r uri
               = Some \<lparr> signal = h_signal (r_handler (h r)), args = ?a2 \<rparr>"
    using assms(1,2)
    by (simp add: Route_handle_def Route_compiledPath_def Object_assign_def Let_def)
  have wf: "wf_obj ?a2"
    by (intro wf_assign1) (simp add: wf_obj_def)
  have g1: "obj_get ?a1 k =
      (case obj_get uriArgs k of
         Some v \<Rightarrow> Some v
       | None \<Rightarrow> if k = ''routeName'' then Some (Route_name (h r)) else None)"
    using assms(3) by (simp add: obj_get_assign1) (simp add: obj_get_def split: option.split)
  have g2: "obj_get ?a2 k =
      (case obj_get (static_args (r_handler (h r))) k of
         Some v \<Rightarrow> Some v
       | None \<Rightarrow> obj_get ?a1 k)"
  proof (cases "h_args (r_handler (h r))")
    case None
    then show ?thesis by (simp add: static_args_def obj_assign1_def obj_get_def split: option.split)
  next
    case (Some a)
    with assms(4) have "wf_obj a" by (simp add: static_args_def)
    with Some show ?thesis by (simp add: static_args_def obj_get_assign1 split: option.split)
  qed
  from g1 g2 have "obj_get ?a2 k =
      (case obj_get (static_args (r_handler (h r))) k of
         Some v \<Rightarrow> Some v
       | None \<Rightarrow>
           (case obj_get uriArgs k of
              Some v \<Rightarrow> Some v
            | None \<Rightarrow> if k = ''routeName'' then Some (Route_name (h r)) else None))"
    by (simp only:)
  with res wf show ?thesis by simp
qed


theorem Route_handle_merges_args_witness:
  "(\<exists>res. Route_handle spec_deps heap_params 0 ''http://nowhere.com/some/foo'' = Some res
      \<and> obj_get (args res) ''routeName'' = Some (JStr ''/some/:id'')
      \<and> obj_get (args res) ''id'' = Some (JStr ''foo'')
      \<and> obj_get (args res) ''signalArgs'' = Some (JStr ''value''))
   \<and> (\<exists>res. Route_handle spec_deps heap_params 1 ''http://nowhere.com/item/7'' = Some res
      \<and> obj_get (args res) ''routeName'' = Some (JStr ''override'')
      \<and> obj_get (args res) ''id'' = Some (JStr ''fixed''))"
proof -
  have r0: "heap_params 0 = Route_new ''/some/:id'' JNull handler0"
    and r1: "heap_params 1 = Route_new ''/item/:id'' (JStr ''item'') handler_override"
    by (simp_all add: heap_params_def)
  have p0: "Route_path heap_params 0 = Some ''/some/:id''"
    by (simp add: path_root Route_parent_def r0 Route_new_def startsWith_slash_def)
  have p1: "Route_path heap_params 1 = Some ''/item/:id''"
    by (simp del: One_nat_def add: path_root Route_parent_def r1 Route_new_def startsWith_slash_def)
  have u0: "[(''id'', JStr ''foo'')] =
      map_args (compileRoute spec_deps (URI spec_deps ''/some/:id''))
        (URI spec_deps ''http://nowhere.com/some/foo'')"
    by (simp add: spec_deps_defs)
  have u1: "[(''id'', JStr ''7'')] =
      map_args (compileRoute spec_deps (URI spec_deps ''/item/:id''))
        (URI spec_deps ''http://nowhere.com/item/7'')"
    by (simp add: spec_deps_defs)
  have w0: "wf_obj (static_args (r_handler (heap_params 0)))"
    by (simp add: r0 Route_new_def handler0_def static_args_def wf_obj_def)
  have w1: "wf_obj (static_args (r_handler (heap_params 1)))"
    by (simp del: One_nat_def add: r1 Route_new_def handler_override_def static_args_def wf_obj_def)
  have wu: "wf_obj [(''id'', JStr ''foo'')]" "wf_obj [(''id'', JStr ''7'')]"
    by (simp_all add: wf_obj_def)
  note A = Route_handle_merges_args [OF p0 u0 wu(1) w0]
  note B = Route_handle_merges_args [OF p1 u1 wu(2) w1]
  from A [of "''id''"] obtain res0
    where res0: "Route_handle spec_deps heap_params 0 ''http://nowhere.com/some/foo'' = Some res0"
    by blast
  from B [of "''id''"] obtain res1
    where res1: "Route_handle spec_deps heap_params 1 ''http://nowhere.com/item/7'' = Some res1"
    by blast
  have "obj_get (args res0) ''routeName'' = Some (JStr ''/some/:id'')"
    using A [of "''routeName''"] res0
    by (auto simp: r0 Route_new_def handler0_def static_args_def obj_get_def Route_name_def
        startsWith_slash_def)
  moreover have "obj_get (args res0) ''id'' = Some (JStr ''foo'')"
    using A [of "''id''"] res0
    by (auto simp: r0 Route_new_def handler0_def static_args_def obj_get_def)
  moreover have "obj_get (args res0) ''signalArgs'' = Some (JStr ''value'')"
    using A [of "''signalArgs''"] res0
    by (auto simp: r0 Route_new_def handler0_def static_args_def obj_get_def)
  moreover have "obj_get (args res1) ''routeName'' = Some (JStr ''override'')"
    using B [of "''routeName''"] res1
    by (auto simp del: One_nat_def
        simp: r1 Route_new_def handler_override_def static_args_def obj_get_def)
  moreover have "obj_get (args res1) ''id'' = Some (JStr ''fixed'')"
    using B [of "''id''"] res1
    by (auto simp del: One_nat_def
        simp: r1 Route_new_def handler_override_def static_args_def obj_get_def)
  ultimately show ?thesis using res0 res1 by simp
qed


section \<open>Registering routes\<close>

lemma addRoute_fresh:
  "\<not> obj_in (ToString (Route_name (h r))) (routes reg) \<Longrightarrow>
   RouteRegistry_addRoute h reg r
     = Some (Inr (), reg\<lparr> routes := routes reg @ [(ToString (Route_name (h r)), r)] \<rparr>)"
proof -
  have "k \<notin> set (map fst ob) \<Longrightarrow> AList.update k v ob = ob @ [(k, v)]" for k v and ob :: "ref obj"
    by (induction ob) auto
  then show "\<not> obj_in (ToString (Route_name (h r))) (routes reg) \<Longrightarrow> ?thesis"
    by (simp add: RouteRegistry_addRoute_def obj_in_def obj_set_def)
qed

text \<open>
  Claim C3. For a rooted route, \<^verbatim>\<open>addRoute\<close> returns; it fails with a
  DuplicatedRouteError exactly when the name of the route is already a key of the
  registry, and then the registry is as before, the key still resolving to the route
  registered first; otherwise the route is registered under its name, after the routes
  registered before.
\<close>

theorem addRoute_duplicate_iff:
  assumes "rooted h r" and "key = ToString (Route_name (h r))"
  shows "\<exists>outcome reg'. RouteRegistry_addRoute h reg r = Some (outcome, reg')
           \<and> ((\<exists>msg. outcome = Inl (DuplicatedRouteError msg)) \<longleftrightarrow> obj_in key (routes reg))
           \<and> (if obj_in key (routes reg)
               then reg' = reg \<and> RouteRegistry_byName reg' key = RouteRegistry_byName reg key
                    \<and> RouteRegistry_byName reg key \<noteq> None
               else outcome = Inr () \<and> RouteRegistry_byName reg' key = Some r
                    \<and> routes reg' = routes reg @ [(key, r)])"
proof (cases "obj_in key (routes reg)")
  case True
  from assms(1) obtain p where "Route_path h r = Some p" using rooted_path by blast
  then obtain str where "Route_toString h r = Some str"
    by (simp add: Route_toString_def)
  with True assms(2) have "RouteRegistry_addRoute h reg r
      = Some (Inl (DuplicatedRouteError_new str), reg)"
    by (simp add: RouteRegistry_addRoute_def)
  moreover from True have "RouteRegistry_byName reg key \<noteq> None"
    by (simp add: RouteRegistry_byName_def obj_get_def obj_in_def map_of_eq_None_iff)
  ultimately show ?thesis using True
    by (simp add: DuplicatedRouteError_new_def)
next
  case False
  with assms(2) have "RouteRegistry_addRoute h reg r
      = Some (Inr (), reg\<lparr> routes := routes reg @ [(key, r)] \<rparr>)"
    by (simp add: addRoute_fresh)
  moreover from False have "map_of (routes reg) key = None"
    by (simp add: obj_in_def map_of_eq_None_iff)
  ultimately show ?thesis using False
    by (simp add: RouteRegistry_byName_def obj_get_def map_add_def)
qed


theorem addRoute_duplicate_iff_witness:
  "rooted heap_family 0
   \<and> RouteRegistry_addRoute heap_family registry 0 = Some (Inr (), \<lparr> routes = [(''bar'', 0)] \<rparr>)
   \<and> (\<exists>msg. RouteRegistry_addRoute heap_family \<lparr> routes = [(''bar'', 0)] \<rparr> 0
              = Some (Inl (DuplicatedRouteError msg), \<lparr> routes = [(''bar'', 0)] \<rparr>))
   \<and> RouteRegistry_byName \<lparr> routes = [(''bar'', 0)] \<rparr> ''bar'' = Some 0"
proof -
  have p0: "Route_parent heap_family 0 = Some 1"
    by (simp del: One_nat_def add: Route_parent_def heap_family_0)
  have p1: "Route_parent heap_family 1 = None"
    by (simp del: One_nat_def add: Route_parent_def heap_family_1)
  have r: "rooted heap_family 0"
    by (rule rooted_child [OF p0 rooted_root [OF p1]])
  have k: "''bar'' = ToString (Route_name (heap_family 0))"
    by (simp add: heap_family_0 Route_name_def)
  from addRoute_duplicate_iff [OF r k, of registry]
  have "RouteRegistry_addRoute heap_family registry 0 = Some (Inr (), \<lparr> routes = [(''bar'', 0)] \<rparr>)"
    by (auto simp: registry_def obj_in_def)
  moreover from addRoute_duplicate_iff [OF r k, of "\<lparr> routes = [(''bar'', 0)] \<rparr>"]
  have "\<exists>msg. RouteRegistry_addRoute heap_family \<lparr> routes = [(''bar'', 0)] \<rparr> 0
              = Some (Inl (DuplicatedRouteError msg), \<lparr> routes = [(''bar'', 0)] \<rparr>)"
    by (auto simp: obj_in_def)
  ultimately show ?thesis using r
    by (simp add: RouteRegistry_byName_def obj_get_def)
qed

section \<open>Finding the matching route\<close>

lemma own_entries_no_index:
  "\<forall>e\<in>set ob. \<not> is_array_index (fst e) \<Longrightarrow> own_entries ob = ob"
proof -
  assume a: "\<forall>e\<in>set ob. \<not> is_array_index (fst e)"
  then have "filter (\<lambda>e. is_array_index (fst e)) ob = []"
    by (simp add: filter_empty_conv)
  moreover from a have "filter (\<lambda>e. \<not> is_array_index (fst e)) ob = ob"
    by (simp add: filter_id_conv)
  ultimately show ?thesis by (simp add: own_entries_def)
qed

lemma matchingRoute_loop_find:
  "\<forall>e\<in>set es. Route_matches D h (snd e) p \<noteq> None \<Longrightarrow>
   matchingRoute_loop D h es p =
     Some (map_option snd (find (\<lambda>e. Route_matches D h (snd e) p = Some True) es))"
proof (induction es)
  case Nil
  then show ?case by simp
next
  case (Cons e es)
  obtain k r where e: "e = (k, r)" by (cases e)
  from Cons.prems e obtain b where b: "Route_matches D h r p = Some b" by auto
  from Cons have IH: "matchingRoute_loop D h es p =
     Some (map_option snd (find (\<lambda>e. Route_matches D h (snd e) p = Some True) es))"
    by simp
  show ?case by (cases b) (simp_all add: e b IH)
qed

lemma heap_pages_0: "heap_pages 0 = Route_new ''/:page'' (JStr ''page'') handler0"
  by (simp add: heap_pages_def)

lemma heap_pages_1: "heap_pages 1 = Route_new ''/404'' (JStr ''404'') handler0"
  by (simp add: heap_pages_def)

lemma heap_pages_path:
  "Route_path heap_pages 0 = Some ''/:page''" "Route_path heap_pages 1 = Some ''/404''"
  by (simp_all del: One_nat_def
      add: path_root Route_parent_def heap_pages_0 heap_pages_1 Route_new_def startsWith_slash_def)

lemma heap_pages_matches:
  "Route_matches spec_deps heap_pages 0 ''/404'' = Some True"
  "Route_matches spec_deps heap_pages 1 ''/404'' = Some True"
  by (simp_all del: One_nat_def
      add: Route_matches_def Route_compiledPath_def heap_pages_path spec_deps_defs)

lemmas index_defs = is_array_index_def is_digit_def index_value_def digit_val_def

lemma heap_family_matches:
  "Route_matches spec_deps heap_family 0 ''/some/thing'' = Some True"
  "Route_matches spec_deps heap_family 1 ''/some/thing'' = Some False"
  "Route_matches spec_deps heap_family 0 ''/other'' = Some False"
  "Route_matches spec_deps heap_family 1 ''/other'' = Some False"
  by (simp_all del: One_nat_def
      add: Route_matches_def Route_compiledPath_def heap_family_path_0 heap_family_path_1
        spec_deps_defs)

text \<open>With any compiler under which the two routes of the example match a path, the
  route registered second is the one found for that path.\<close>

lemma matchingRoute_pages_any_compiler:
  "Route_matches D heap_pages 0 p = Some True \<Longrightarrow>
   Route_matches D heap_pages 1 p = Some True \<Longrightarrow>
   RouteRegistry_matchingRoute D heap_pages registry_pages p = Some (Some 1)"
proof -
  have "own_entries (routes registry_pages) = [(''404'', 1), (''page'', 0)]"
    by (simp add: registry_pages_def own_entries_def index_defs)
  then show "Route_matches D heap_pages 1 p = Some True \<Longrightarrow> ?thesis"
    by (simp del: One_nat_def add: RouteRegistry_matchingRoute_def)
qed

text \<open>
  Claim C2, the statement as given fails: the scan does not follow the order of
  registration when a route name is an array index. The route \<^verbatim>\<open>/:page\<close> is
  registered first, under the name \<^verbatim>\<open>page\<close>, and the route \<^verbatim>\<open>/404\<close> second, under
  the name \<^verbatim>\<open>404\<close>. Both match \<^verbatim>\<open>/404\<close>, and \<^verbatim>\<open>matchingRoute\<close> returns the one
  registered second.
\<close>

theorem matchingRoute_registration_order_counterexample:
  "RouteRegistry_addRoute heap_pages registry 0 = Some (Inr (), \<lparr> routes = [(''page'', 0)] \<rparr>)
   \<and> RouteRegistry_addRoute heap_pages \<lparr> routes = [(''page'', 0)] \<rparr> 1
       = Some (Inr (), registry_pages)
   \<and> Route_matches spec_deps heap_pages 0 ''/404'' = Some True
   \<and> RouteRegistry_matchingRoute spec_deps heap_pages registry_pages ''/404'' = Some (Some 1)"
proof -
  have "RouteRegistry_addRoute heap_pages registry 0 = Some (Inr (), \<lparr> routes = [(''page'', 0)] \<rparr>)"
    by (simp add: RouteRegistry_addRoute_def registry_def heap_pages_0 Route_new_def
        Route_name_def obj_in_def obj_set_def)
  moreover have "RouteRegistry_addRoute heap_pages \<lparr> routes = [(''page'', 0)] \<rparr> 1
       = Some (Inr (), registry_pages)"
    by (simp del: One_nat_def add: RouteRegistry_addRoute_def registry_pages_def heap_pages_1
        Route_new_def Route_name_def obj_in_def obj_set_def)
  moreover have "own_entries (routes registry_pages) = [(''404'', 1), (''page'', 0)]"
    by (simp add: registry_pages_def own_entries_def index_defs)
  then have "RouteRegistry_matchingRoute spec_deps heap_pages registry_pages ''/404''
      = Some (Some 1)"
    by (simp del: One_nat_def add: RouteRegistry_matchingRoute_def heap_pages_matches)
  ultimately show ?thesis by (simp add: heap_pages_matches)
qed


text \<open>
  Claim C2, amended. When \<^verbatim>\<open>matches\<close> returns for every registered route,
  \<^verbatim>\<open>matchingRoute\<close> returns the first route that matches in the order of enumeration of
  the registry object, and \<^verbatim>\<open>null\<close> when none matches. That order is: the routes
  whose names are array indices, by ascending index, then the other routes in the order of
  registration; so it is the order of registration when no name is an array index.
\<close>

theorem matchingRoute_first_in_enumeration_order:
  assumes "\<forall>e\<in>set (routes reg). Route_matches D h (snd e) p \<noteq> None"
  shows "RouteRegistry_matchingRoute D h reg p =
           Some (map_option snd
                   (find (\<lambda>e. Route_matches D h (snd e) p = Some True) (own_entries (routes reg))))
         \<and> own_entries (routes reg) =
             sort_key (\<lambda>e. index_value (fst e)) (filter (\<lambda>e. is_array_index (fst e)) (routes reg))
             @ filter (\<lambda>e. \<not> is_array_index (fst e)) (routes reg)
         \<and> ((\<forall>e\<in>set (routes reg). \<not> is_array_index (fst e)) \<longrightarrow>
              RouteRegistry_matchingRoute D h reg p =
                Some (map_option snd
                        (find (\<lambda>e. Route_matches D h (snd e) p = Some True) (routes reg))))"
proof -
  from assms have "\<forall>e\<in>set (own_entries (routes reg)). Route_matches D h (snd e) p \<noteq> None"
    by (simp add: set_own_entries)
  then have "RouteRegistry_matchingRoute D h reg p =
           Some (map_option snd
                   (find (\<lambda>e. Route_matches D h (snd e) p = Some True) (own_entries (routes reg))))"
    unfolding RouteRegistry_matchingRoute_def by (rule matchingRoute_loop_find)
  then show ?thesis
    by (auto simp: own_entries_no_index) (simp add: own_entries_def)
qed

theorem matchingRoute_first_in_enumeration_order_witness:
  "Route_matches spec_deps heap_family 0 ''/some/thing'' \<noteq> None
   \<and> Route_matches spec_deps heap_family 1 ''/some/thing'' \<noteq> None
   \<and> RouteRegistry_matchingRoute spec_deps heap_family registry_family ''/some/thing''
       = Some (Some 0)
   \<and> RouteRegistry_matchingRoute spec_deps heap_family registry_family ''/other'' = Some None
   \<and> RouteRegistry_matchingRoute spec_deps heap_pages registry_pages ''/404'' = Some (Some 1)"
proof -
  have a: "\<forall>e\<in>set (routes registry_family).
             Route_matches spec_deps heap_family (snd e) ''/some/thing'' \<noteq> None"
    and b: "\<forall>e\<in>set (routes registry_family).
             Route_matches spec_deps heap_family (snd e) ''/other'' \<noteq> None"
    by (auto simp del: One_nat_def simp add: registry_family_def heap_family_matches)
  have c: "\<forall>e\<in>set (routes registry_pages).
             Route_matches spec_deps heap_pages (snd e) ''/404'' \<noteq> None"
    by (auto simp del: One_nat_def simp add: registry_pages_def heap_pages_matches)
  have n: "\<forall>e\<in>set (routes registry_family). \<not> is_array_index (fst e)"
    by (simp add: registry_family_def index_defs)
  have o: "own_entries (routes registry_pages) = [(''404'', 1), (''page'', 0)]"
    by (simp add: registry_pages_def own_entries_def index_defs)
  from matchingRoute_first_in_enumeration_order [OF a] n
  have "RouteRegistry_matchingRoute spec_deps heap_family registry_family ''/some/thing''
       = Some (Some 0)"
    by (simp del: One_nat_def add: registry_family_def heap_family_matches)
  moreover from matchingRoute_first_in_enumeration_order [OF b] n
  have "RouteRegistry_matchingRoute spec_deps heap_family registry_family ''/other'' = Some None"
    by (simp del: One_nat_def add: registry_family_def heap_family_matches)
  moreover from matchingRoute_first_in_enumeration_order [OF c]
  have "RouteRegistry_matchingRoute spec_deps heap_pages registry_pages ''/404'' = Some (Some 1)"
    by (simp del: One_nat_def add: o heap_pages_matches)
  ultimately show ?thesis by (simp del: One_nat_def add: heap_family_matches)
qed


section \<open>Reconstructing paths\<close>

lemma GetSubstitution_no_dollar:
  "CHR ''$'' \<notin> set rep \<Longrightarrow> GetSubstitution matched pre post rep = rep"
  by (induction matched pre post rep rule: GetSubstitution.induct) auto

lemma js_replace_literal:
  "CHR ''$'' \<notin> set rep \<Longrightarrow> js_replace s pat rep = literal_replace s pat rep"
  by (simp add: js_replace_def literal_replace_def GetSubstitution_no_dollar split: option.split)

lemma foldl_replace_literal:
  "\<forall>e\<in>set es. CHR ''$'' \<notin> set (ToString (snd e)) \<Longrightarrow>
   foldl (\<lambda>acc e. js_replace acc (CHR '':'' # fst e) (ToString (snd e))) s es =
   foldl (\<lambda>acc e. literal_replace acc (CHR '':'' # fst e) (ToString (snd e))) s es"
  by (induction es arbitrary: s) (simp_all add: js_replace_literal)

lemma replaceParams_literal:
  "\<forall>e\<in>set a. CHR ''$'' \<notin> set (ToString (snd e)) \<Longrightarrow>
   replaceParams p (Some a) = substitute_tokens p a"
  by (simp add: replaceParams_def substitute_tokens_def foldl_replace_literal set_own_entries)

lemmas replace_defs = replaceParams_def substitute_tokens_def own_entries_def index_defs
  js_replace_def literal_replace_def

text \<open>
  Claim C4, at an input where the code departs from it. The route \<^verbatim>\<open>/pay/:amount\<close> is
  registered under the name \<^verbatim>\<open>pay\<close>. For the argument object with the value
  \<^verbatim>\<open>$$5\<close> for \<^verbatim>\<open>amount\<close>, \<^verbatim>\<open>named\<close> returns \<^verbatim>\<open>/pay/$5\<close>, whereas replacing the
  token by the value gives \<^verbatim>\<open>/pay/$$5\<close>. The two agree for values without a dollar
  sign (lemma \<open>replaceParams_literal\<close>).
\<close>

theorem named_dollar_in_value:
  "RouteRegistry_byName registry_pay ''pay'' = Some 0
   \<and> Route_path heap_pay 0 = Some ''/pay/:amount''
   \<and> TreeRouterService_named heap_pay registry_pay ''pay'' (Some [(''amount'', JStr ''$$5'')])
       = Some (Some ''/pay/$5'')
   \<and> substitute_tokens ''/pay/:amount'' [(''amount'', JStr ''$$5'')] = ''/pay/$$5''"
proof -
  have p: "Route_path heap_pay 0 = Some ''/pay/:amount''"
    by (simp add: path_root Route_parent_def heap_pay_def Route_new_def startsWith_slash_def)
  have b: "RouteRegistry_byName registry_pay ''pay'' = Some 0"
    by (simp add: RouteRegistry_byName_def registry_pay_def obj_get_def)
  have "replaceParams ''/pay/:amount'' (Some [(''amount'', JStr ''$$5'')]) = ''/pay/$5''"
    by (simp add: replace_defs)
  with p b have "TreeRouterService_named heap_pay registry_pay ''pay''
      (Some [(''amount'', JStr ''$$5'')]) = Some (Some ''/pay/$5'')"
    by (simp add: TreeRouterService_named_def)
  moreover have "substitute_tokens ''/pay/:amount'' [(''amount'', JStr ''$$5'')] = ''/pay/$$5''"
    by (simp add: replace_defs)
  ultimately show ?thesis using p b by simp
qed


lemma heap_query_0:
  "heap_query 0 = (Route_new ''/thing'' (JStr ''child'') handler0)\<lparr>r_parent := Some 1\<rparr>"
  by (simp del: One_nat_def add: heap_query_def Route_set_parent_def Route_new_def)

lemma heap_query_1:
  "heap_query 1 = Route_new ''/some/:id?foo=:bar'' (JStr ''parent'') handler0"
  by (simp del: One_nat_def add: heap_query_def Route_set_parent_def Route_new_def)

lemma heap_query_parent_0: "Route_parent heap_query 0 = Some 1"
  by (simp del: One_nat_def add: Route_parent_def heap_query_0 Route_new_def)

lemma heap_query_parent_1: "Route_parent heap_query 1 = None"
  by (simp del: One_nat_def add: Route_parent_def heap_query_1 Route_new_def)

lemma heap_query_path_1: "Route_path heap_query 1 = Some ''/some/:id?foo=:bar''"
  by (simp del: One_nat_def
      add: path_root heap_query_parent_1 heap_query_1 Route_new_def startsWith_slash_def)

text \<open>\<^verbatim>\<open>parent\<close> returns \<^verbatim>\<open>null\<close> when the name is not registered and when the route
  of that name has no parent.\<close>

lemma parent_unknown_name:
  "RouteRegistry_byName reg name = None \<Longrightarrow>
   TreeRouterService_parent h reg name a = Some None"
  by (simp add: TreeRouterService_parent_def)

lemma parent_of_root:
  "RouteRegistry_byName reg name = Some c \<Longrightarrow> Route_parent h c = None \<Longrightarrow>
   TreeRouterService_parent h reg name a = Some None"
  by (simp add: TreeRouterService_parent_def)

text \<open>When no value of the argument object has a dollar sign, \<^verbatim>\<open>parent\<close> returns the
  full path of the parent with every token replaced by its value, as the specification
  words the substitution.\<close>

lemma parent_literal:
  "RouteRegistry_byName reg name = Some c \<Longrightarrow> Route_parent h c = Some p \<Longrightarrow>
   Route_path h p = Some pp \<Longrightarrow>
   \<forall>e\<in>set a. CHR ''$'' \<notin> set (ToString (snd e)) \<Longrightarrow>
   TreeRouterService_parent h reg name (Some a) = Some (Some (substitute_tokens pp a))"
  by (simp add: TreeRouterService_parent_def replaceParams_literal)

lemma parent_example:
  "TreeRouterService_parent heap_query registry_query ''missing''
      (Some [(''id'', JStr ''42''), (''bar'', JStr ''foo'')]) = Some None
   \<and> TreeRouterService_parent heap_query registry_query ''parent''
      (Some [(''id'', JStr ''42''), (''bar'', JStr ''foo'')]) = Some None
   \<and> TreeRouterService_parent heap_query registry_query ''child''
      (Some [(''id'', JStr ''42''), (''bar'', JStr ''foo'')]) = Some (Some ''/some/42?foo=foo'')"
proof -
  let ?a = "[(''id'', JStr ''42''), (''bar'', JStr ''foo'')]"
  have n: "RouteRegistry_byName registry_query ''missing'' = None"
    and c: "RouteRegistry_byName registry_query ''child'' = Some 0"
    and p: "RouteRegistry_byName registry_query ''parent'' = Some 1"
    by (simp_all add: RouteRegistry_byName_def registry_query_def obj_get_def)
  have d: "\<forall>e\<in>set ?a. CHR ''$'' \<notin> set (ToString (snd e))"
    by simp
  have "substitute_tokens ''/some/:id?foo=:bar'' ?a = ''/some/42?foo=foo''"
    by (simp add: replace_defs)
  with parent_literal [OF c heap_query_parent_0 heap_query_path_1 d]
  have "TreeRouterService_parent heap_query registry_query ''child'' (Some ?a)
      = Some (Some ''/some/42?foo=foo'')"
    by simp
  with parent_unknown_name [OF n] parent_of_root [OF p heap_query_parent_1]
  show ?thesis by simp
qed

text \<open>
  Claim C5, at an input where the code departs from it. The route named \<^verbatim>\<open>child\<close> has
  the parent with the full path \<^verbatim>\<open>/some/:id?foo=:bar\<close>. For the argument object with
  the value \<^verbatim>\<open>$$5\<close> for \<^verbatim>\<open>id\<close>, \<^verbatim>\<open>parent\<close> returns \<^verbatim>\<open>/some/$5?foo=:bar\<close>, whereas
  the path of the parent with the parameter substituted from the arguments is
  \<^verbatim>\<open>/some/$$5?foo=:bar\<close>. The cause is the one of claim C4: the value is used as the
  replacement text of \<^verbatim>\<open>String.prototype.replace\<close>. The results for an unknown name,
  for a route without parent and for values without a dollar sign are as the claim says
  (lemmas \<open>parent_unknown_name\<close>, \<open>parent_of_root\<close>, \<open>parent_literal\<close> and
  \<open>parent_example\<close>).
\<close>

theorem parent_dollar_in_value:
  "RouteRegistry_byName registry_query ''child'' = Some 0
   \<and> Route_parent heap_query 0 = Some 1
   \<and> Route_path heap_query 1 = Some ''/some/:id?foo=:bar''
   \<and> TreeRouterService_parent heap_query registry_query ''child'' (Some [(''id'', JStr ''$$5'')])
       = Some (Some ''/some/$5?foo=:bar'')
   \<and> substitute_tokens ''/some/:id?foo=:bar'' [(''id'', JStr ''$$5'')] = ''/some/$$5?foo=:bar''"
proof -
  have c: "RouteRegistry_byName registry_query ''child'' = Some 0"
    by (simp add: RouteRegistry_byName_def registry_query_def obj_get_def)
  have "replaceParams ''/some/:id?foo=:bar'' (Some [(''id'', JStr ''$$5'')]) = ''/some/$5?foo=:bar''"
    by (simp add: replace_defs)
  with c have "TreeRouterService_parent heap_query registry_query ''child''
      (Some [(''id'', JStr ''$$5'')]) = Some (Some ''/some/$5?foo=:bar'')"
    by (simp del: One_nat_def
        add: TreeRouterService_parent_def heap_query_parent_0 heap_query_path_1)
  moreover have "substitute_tokens ''/some/:id?foo=:bar'' [(''id'', JStr ''$$5'')]
      = ''/some/$$5?foo=:bar''"
    by (simp add: replace_defs)
  ultimately show ?thesis
    using c by (simp del: One_nat_def add: heap_query_parent_0 heap_query_path_1)
qed

section \<open>What the path and the matching depend on\<close>

lemma chain_parent_subset:
  assumes "Route_parent h r = Some p"
  shows "chain h p \<subseteq> chain h r"
proof
  fix q
  assume "q \<in> chain h p"
  then show "q \<in> chain h r"
  proof (induction rule: chain.induct)
    case chain_self
    show ?case by (rule chain.chain_parent [OF chain.chain_self assms])
  next
    case (chain_parent q p')
    then show ?case by (blast intro: chain.chain_parent)
  qed
qed

lemma path_frame_rooted:
  "rooted h r \<Longrightarrow>
   \<forall>q\<in>chain h r. r_url (h' q) = r_url (h q) \<and> r_parent (h' q) = r_parent (h q) \<Longrightarrow>
   Route_path h' r = Route_path h r"
proof (induction rule: rooted.induct)
  case (rooted_root h r)
  then have "Route_parent h' r = None"
    by (simp add: Route_parent_def chain_self)
  with rooted_root show ?case
    by (simp add: path_root chain_self)
next
  case (rooted_child h r p)
  from rooted_child.hyps(1) have sub: "chain h p \<subseteq> chain h r"
    by (rule chain_parent_subset)
  with rooted_child have "Route_path h' p = Route_path h p" by blast
  moreover from rooted_child.hyps(1) rooted_child.prems have "Route_parent h' r = Some p"
    by (simp add: Route_parent_def chain_self)
  ultimately show ?case using rooted_child.hyps(1) rooted_child.prems
    by (simp add: path_child chain_self)
qed

lemma rooted_frame:
  "rooted h' r \<Longrightarrow>
   \<forall>q\<in>chain h r. r_url (h' q) = r_url (h q) \<and> r_parent (h' q) = r_parent (h q) \<Longrightarrow>
   rooted h r"
proof (induction rule: rooted.induct)
  case (rooted_root h' r)
  then have "Route_parent h r = None"
    by (simp add: Route_parent_def chain_self)
  then show ?case by (rule rooted.rooted_root)
next
  case (rooted_child h' r p)
  then have p: "Route_parent h r = Some p"
    by (simp add: Route_parent_def chain_self)
  then have "chain h p \<subseteq> chain h r" by (rule chain_parent_subset)
  with rooted_child have "rooted h p" by blast
  with p show ?case by (rule rooted.rooted_child)
qed

lemma path_frame:
  assumes "\<forall>q\<in>chain h r. r_url (h' q) = r_url (h q) \<and> r_parent (h' q) = r_parent (h q)"
  shows "Route_path h' r = Route_path h r"
proof (cases "rooted h r")
  case True
  then show ?thesis using assms by (rule path_frame_rooted)
next
  case False
  then have "Route_path h r = None"
    using path_rooted by (cases "Route_path h r") auto
  moreover from False assms have "\<not> rooted h' r"
    using rooted_frame by blast
  then have "Route_path h' r = None"
    using path_rooted by (cases "Route_path h' r") auto
  ultimately show ?thesis by simp
qed

lemma chain_family: "q \<in> chain heap_family 0 \<Longrightarrow> q = 0 \<or> q = 1"
  by (induction rule: chain.induct)
     (auto simp del: One_nat_def simp add: Route_parent_def heap_family_0 heap_family_1)

text \<open>
  Claim C9. \<^verbatim>\<open>path()\<close> and \<^verbatim>\<open>matches(path)\<close> are functions of the templates and the
  parent references on the parent chain of the route, and of nothing else: in any two
  stores that agree on these, both give the same result (or both do not return), whatever
  else differs. In particular a second call in an unmodified tree gives the result of the
  first.
\<close>

theorem path_and_matches_depend_on_chain_only:
  assumes "\<forall>q\<in>chain h r. r_url (h' q) = r_url (h q) \<and> r_parent (h' q) = r_parent (h q)"
  shows "Route_path h' r = Route_path h r
         \<and> Route_matches D h' r candidate = Route_matches D h r candidate"
proof -
  from assms have "Route_path h' r = Route_path h r" by (rule path_frame)
  then show ?thesis
    by (simp add: Route_matches_def Route_compiledPath_def)
qed

theorem path_and_matches_depend_on_chain_only_witness:
  "Route_path heap_edited 0 = Some ''/some/thing''
   \<and> Route_matches spec_deps heap_edited 0 ''/some/thing'' = Some True
   \<and> Route_name (heap_edited 0) \<noteq> Route_name (heap_family 0)
   \<and> heap_edited 2 \<noteq> heap_family 2"
proof -
  have "\<forall>q\<in>chain heap_family 0.
          r_url (heap_edited q) = r_url (heap_family q)
          \<and> r_parent (heap_edited q) = r_parent (heap_family q)"
    by (auto dest!: chain_family simp del: One_nat_def simp add: heap_edited_def)
  from path_and_matches_depend_on_chain_only [OF this, of spec_deps "''/some/thing''"]
  have "Route_path heap_edited 0 = Some ''/some/thing''"
    and "Route_matches spec_deps heap_edited 0 ''/some/thing'' = Some True"
    by (simp_all add: heap_family_path_0 heap_family_matches)
  moreover have "Route_name (heap_edited 0) \<noteq> Route_name (heap_family 0)"
    by (simp add: heap_edited_def heap_family_0 Route_name_def)
  moreover have "heap_edited 2 \<noteq> heap_family 2"
    by (simp add: heap_edited_def heap_family_2 Route_new_def startsWith_slash_def)
  ultimately show ?thesis by simp
qed


section \<open>Matching against the compiled full path\<close>

lemma segments_agree_iff:
  "(length cs = length ts \<and> (\<forall>i<length ts. if is_param (ts ! i) then cs ! i \<noteq> [] else cs ! i = ts ! i))
   = list_all2 segment_matches ts cs"
  by (auto simp: list_all2_conv_all_nth segment_matches_def)

lemma heap_params_path_0: "Route_path heap_params 0 = Some ''/some/:id''"
  by (simp add: path_root Route_parent_def heap_params_def Route_new_def startsWith_slash_def)

text \<open>
  Claim C7. With the matcher of the compiler as the specification describes it,
  \<^verbatim>\<open>matches\<close> is true exactly when the candidate has as many segments as the path
  component of the full path of the route, every literal segment is equal to the segment
  at its place, and the segment at the place of every parameter is not empty.
\<close>

theorem Route_matches_segmentwise:
  assumes "Route_path h r = Some fullPath"
    and "ts = split_on (CHR ''/'') (uri_path (URI_new fullPath))"
    and "cs = split_on (CHR ''/'') candidate"
  shows "Route_matches spec_deps h r candidate =
           Some (length cs = length ts
                 \<and> (\<forall>i<length ts. if is_param (ts ! i) then cs ! i \<noteq> [] else cs ! i = ts ! i))"
  using assms
  by (simp only: segments_agree_iff)
     (simp add: Route_matches_def Route_compiledPath_def spec_deps_def compile_test_def)


theorem Route_matches_segmentwise_witness:
  "Route_matches spec_deps heap_params 0 ''/some/item'' = Some True
   \<and> Route_matches spec_deps heap_params 0 ''/some/other/item'' = Some False
   \<and> Route_matches spec_deps heap_params 0 ''/some/'' = Some False
   \<and> Route_matches spec_deps heap_params 0 ''/other/item'' = Some False"
proof -
  have ts: "[[], ''some'', '':id''] = split_on (CHR ''/'') (uri_path (URI_new ''/some/:id''))"
    by (simp add: URI_new_def)
  have c1: "[[], ''some'', ''item''] = split_on (CHR ''/'') ''/some/item''"
    and c2: "[[], ''some'', ''other'', ''item''] = split_on (CHR ''/'') ''/some/other/item''"
    and c3: "[[], ''some'', []] = split_on (CHR ''/'') ''/some/''"
    and c4: "[[], ''other'', ''item''] = split_on (CHR ''/'') ''/other/item''"
    by simp_all
  note m = Route_matches_segmentwise [OF heap_params_path_0 ts]
  have "Route_matches spec_deps heap_params 0 ''/some/item'' = Some True"
    unfolding m [OF c1] segments_agree_iff by (simp add: segment_matches_def is_param_def)
  moreover have "Route_matches spec_deps heap_params 0 ''/some/other/item'' = Some False"
    unfolding m [OF c2] segments_agree_iff by (simp add: segment_matches_def is_param_def)
  moreover have "Route_matches spec_deps heap_params 0 ''/some/'' = Some False"
    unfolding m [OF c3] segments_agree_iff by (simp add: segment_matches_def is_param_def)
  moreover have "Route_matches spec_deps heap_params 0 ''/other/item'' = Some False"
    unfolding m [OF c4] segments_agree_iff by (simp add: segment_matches_def is_param_def)
  ultimately show ?thesis by simp
qed


end
